theory Spec2Isabelle
  imports Complex_Main "HOL-Library.Word" "HOL-Library.Sublist"
begin

section \<open>Values shared by the queue service and the bundle processor\<close>

text \<open>
  A \<open>Uint8Array\<close> is a list of bytes. The queue service never looks inside a payload or a
  configuration record: it stores the references it was handed. Both are therefore kept as
  addresses into a store, so that sharing between a job and a snapshot of it is visible.
\<close>

type_synonym byte = "8 word"

type_synonym addr = nat

text \<open>What \<open>JSON.parse\<close> produces. A number is kept by its value (only its being zero matters
  below); an object is its list of own properties in insertion order.\<close>

datatype json =
    JNull
  | JBool bool
  | JNum real
  | JStr string
  | JArr "json list"
  | JObj "(string \<times> json) list"


text \<open>A thrown JavaScript value, as far as the code reads it: \<open>err?.message\<close> (absent when
  the value has no such property) and \<open>String(err)\<close>.\<close>

datatype thrown = Thrown (message: "string option") (as_string: string)

text \<open>\<open>new Error(msg)\<close>: the message, and \<open>Error.prototype.toString\<close>, which is the name alone
  when the message is empty.\<close>

definition js_Error :: "string \<Rightarrow> thrown" where
  "js_Error msg = Thrown (Some msg) (if msg = [] then ''Error'' else ''Error: '' @ msg)"

text \<open>\<open>err?.message || String(err)\<close>: an absent or empty message is falsy.\<close>

definition error_text :: "thrown \<Rightarrow> string" where
  "error_text err =
     (case message err of
        Some m \<Rightarrow> if m \<noteq> [] then m else as_string err
      | None \<Rightarrow> as_string err)"

section \<open>The conversion queue service\<close>

datatype ConversionStatus = Queued | Processing | Completed | Failed

text \<open>\<open>job_id\<close> is the field \<open>id\<close> and \<open>file_ref\<close> the field \<open>file\<close>; clock readings and
  progress are natural numbers.\<close>

record ConversionJob =
  job_id :: string
  status :: ConversionStatus
  progress :: nat
  file_ref :: addr
  fileName :: "string option"
  result :: "addr option"
  error :: "string option"
  createdAt :: nat
  updatedAt :: nat

text \<open>
  The listeners of the emitter's \<open>update\<close> event. \<open>Subscriber n\<close> is a function a caller
  passed to \<open>onUpdate\<close>. It is caller code, of which the service knows nothing; it is taken
  to look at the snapshot it is handed and return: it does not throw, does not change the
  snapshot, and does not call the service from inside the callback. \<open>Waiter i\<close> is the
  closure \<open>enqueueAndWait\<close> creates for the job it enqueued as \<open>i\<close>.
\<close>

datatype listener = Subscriber nat | Waiter string

datatype promise = Pending | Resolved addr | Rejected string

text \<open>
  The fields of the class are \<open>jobs\<close>, \<open>queue\<close>, \<open>processing\<close> and the emitter's \<open>listeners\<close>.
  \<open>awaiting\<close> are the suspended calls of \<open>processNext\<close>, each by the id of the job whose
  conversion it awaits. \<open>promises\<close> are the promises \<open>enqueueAndWait\<close> returned, by the id of
  the job each waits for. \<open>emitted\<close> and \<open>delivered\<close> record what was broadcast and what
  each subscriber was called with, in order.
\<close>

record service =
  jobs :: "string \<rightharpoonup> ConversionJob"
  queue :: "string list"
  processing :: bool
  listeners :: "listener list"
  awaiting :: "string list"
  promises :: "string \<rightharpoonup> promise"
  emitted :: "ConversionJob list"
  delivered :: "(nat \<times> ConversionJob) list"

definition init :: service where
  "init = \<lparr> jobs = Map.empty, queue = [], processing = False, listeners = [],
            awaiting = [], promises = Map.empty, emitted = [], delivered = [] \<rparr>"

text \<open>\<open>removeListener\<close> takes out the most recently added instance of the listener.\<close>

definition removeListener :: "listener \<Rightarrow> listener list \<Rightarrow> listener list" where
  "removeListener l ls = rev (remove1 l (rev ls))"

text \<open>A promise is settled by the first call of \<open>resolve\<close> or \<open>reject\<close>; later calls do nothing.\<close>

definition settle :: "string \<Rightarrow> promise \<Rightarrow> service \<Rightarrow> service" where
  "settle i v s =
     (if promises s i = Some Pending then s\<lparr>promises := (promises s)(i \<mapsto> v)\<rparr> else s)"

text \<open>The closure \<open>onUpdate\<close> inside \<open>enqueueAndWait\<close>, for the job id \<open>i\<close>. An object
  reference is truthy, so \<open>job.result\<close> is truthy when present; \<open>job.error || ...\<close> falls back
  when the text is absent or empty.\<close>

definition waiter_onUpdate :: "string \<Rightarrow> ConversionJob \<Rightarrow> service \<Rightarrow> service" where
  "waiter_onUpdate i job s =
     (if job_id job \<noteq> i then s
      else if status job = Completed \<and> result job \<noteq> None then
        settle i (Resolved (the (result job)))
          (s\<lparr>listeners := removeListener (Waiter i) (listeners s)\<rparr>)
      else if status job = Failed then
        settle i
          (Rejected (case error job of
                       Some e \<Rightarrow> if e \<noteq> [] then e else ''Conversion failed''
                     | None \<Rightarrow> ''Conversion failed''))
          (s\<lparr>listeners := removeListener (Waiter i) (listeners s)\<rparr>)
      else s)"

fun call_listener :: "listener \<Rightarrow> ConversionJob \<Rightarrow> service \<Rightarrow> service" where
  "call_listener (Subscriber n) job s = s\<lparr>delivered := delivered s @ [(n, job)]\<rparr>"
| "call_listener (Waiter i) job s = waiter_onUpdate i job s"

text \<open>\<open>emit\<close> calls a copy of the listener array in registration order, each with the same
  snapshot \<open>{ ...job }\<close>.\<close>

primrec deliver :: "listener list \<Rightarrow> ConversionJob \<Rightarrow> service \<Rightarrow> service" where
  "deliver [] job s = s"
| "deliver (l # ls) job s = deliver ls job (call_listener l job s)"

definition emit :: "ConversionJob \<Rightarrow> service \<Rightarrow> service" where
  "emit job s = deliver (listeners s) job (s\<lparr>emitted := emitted s @ [job]\<rparr>)"

text \<open>
  \<open>processNext\<close> up to its \<open>await\<close>: an \<open>async\<close> function runs synchronously until then.
  \<open>now\<close> is what \<open>Date.now()\<close> returns. The id is shifted off the queue before the two
  defensive returns; an empty string is falsy.
\<close>

definition processNext :: "nat \<Rightarrow> service \<Rightarrow> service" where
  "processNext now s =
     (if processing s then s
      else case queue s of
        [] \<Rightarrow> s
      | nextId # rest \<Rightarrow>
          let s1 = s\<lparr>queue := rest\<rparr> in
          if nextId = [] then s1
          else case jobs s1 nextId of
            None \<Rightarrow> s1
          | Some job \<Rightarrow>
              let s2 = s1\<lparr>processing := True\<rparr>;
                  job1 = job\<lparr>status := Processing, progress := 5, updatedAt := now\<rparr>;
                  s3 = emit job1 (s2\<lparr>jobs := (jobs s2)(nextId \<mapsto> job1)\<rparr>);
                  job2 = job1\<lparr>progress := 50\<rparr>;
                  s4 = emit job2 (s3\<lparr>jobs := (jobs s3)(nextId \<mapsto> job2)\<rparr>)
              in s4\<lparr>awaiting := awaiting s4 @ [nextId]\<rparr>)"

text \<open>
  The call of \<open>processNext\<close> that awaits the conversion of job \<open>i\<close>, from its \<open>await\<close> on,
  once the promise of \<open>processBundleFile\<close> has settled with \<open>outcome\<close> (\<open>Inl\<close> a rejection,
  \<open>Inr\<close> the configuration record): the rest of the \<open>try\<close>, or the \<open>catch\<close>, then the
  \<open>finally\<close>, which calls \<open>processNext\<close> again. The local \<open>job\<close> is the record under the
  id: an entry of \<open>jobs\<close> is never removed, and never replaced as long as ids are fresh.
\<close>

definition processNext_resume ::
  "string \<Rightarrow> thrown + addr \<Rightarrow> nat \<Rightarrow> nat \<Rightarrow> service \<Rightarrow> service" where
  "processNext_resume i outcome now now' s =
     (case jobs s i of
        None \<Rightarrow> s
      | Some job \<Rightarrow>
          let job' = (case outcome of
                        Inr r \<Rightarrow>
                          job\<lparr>progress := 100, status := Completed, result := Some r,
                              updatedAt := now\<rparr>
                      | Inl err \<Rightarrow>
                          job\<lparr>status := Failed, error := Some (error_text err),
                              updatedAt := now\<rparr>);
              s1 = emit job' (s\<lparr>jobs := (jobs s)(i \<mapsto> job')\<rparr>);
              s2 = s1\<lparr>processing := False, awaiting := remove1 i (awaiting s1)\<rparr>
          in processNext now' s2)"

text \<open>\<open>enqueue\<close>; \<open>i\<close> is what \<open>uuidv4()\<close> returned, \<open>now\<close> and \<open>now'\<close> the two clock readings.\<close>

definition enqueue ::
  "string \<Rightarrow> nat \<Rightarrow> nat \<Rightarrow> addr \<Rightarrow> string option \<Rightarrow> service \<Rightarrow> string \<times> service" where
  "enqueue i now now' f fn s =
     (let job = \<lparr> job_id = i, status = Queued, progress = 0, file_ref = f, fileName = fn,
                  result = None, error = None, createdAt = now, updatedAt = now \<rparr>;
          s1 = s\<lparr>jobs := (jobs s)(i \<mapsto> job), queue := queue s @ [i]\<rparr>;
          s2 = emit job s1;
          s3 = processNext now' s2
      in (i, s3))"

text \<open>\<open>enqueueAndWait\<close>: the promise executor runs at once, so the listener is added before
  control returns to the event loop.\<close>

definition enqueueAndWait ::
  "string \<Rightarrow> nat \<Rightarrow> nat \<Rightarrow> addr \<Rightarrow> string option \<Rightarrow> service \<Rightarrow> string \<times> service" where
  "enqueueAndWait i now now' f fn s =
     (let (i', s1) = enqueue i now now' f fn s
      in (i', s1\<lparr>listeners := listeners s1 @ [Waiter i'],
                 promises := (promises s1)(i' \<mapsto> Pending)\<rparr>))"


definition onUpdate :: "nat \<Rightarrow> service \<Rightarrow> service" where
  "onUpdate n s = s\<lparr>listeners := listeners s @ [Subscriber n]\<rparr>"

definition offUpdate :: "nat \<Rightarrow> service \<Rightarrow> service" where
  "offUpdate n s = s\<lparr>listeners := removeListener (Subscriber n) (listeners s)\<rparr>"

text \<open>
  What can happen to the service between two returns to the event loop. \<open>uuidv4\<close> returns a
  non-empty id that no earlier job has; \<open>Settled i\<close> is the conversion of job \<open>i\<close> settling, which
  needs a call of \<open>processNext\<close> awaiting it.
\<close>

datatype event =
    Enqueue string nat nat addr "string option"
  | EnqueueAndWait string nat nat addr "string option"
  | Settled string "thrown + addr" nat nat
  | OnUpdate nat
  | OffUpdate nat

fun fire :: "event \<Rightarrow> service \<Rightarrow> service option" where
  "fire (Enqueue i now now' f fn) s =
     (if i = [] \<or> jobs s i \<noteq> None then None else Some (snd (enqueue i now now' f fn s)))"
| "fire (EnqueueAndWait i now now' f fn) s =
     (if i = [] \<or> jobs s i \<noteq> None then None
      else Some (snd (enqueueAndWait i now now' f fn s)))"
| "fire (Settled i outcome now now') s =
     (if i \<in> set (awaiting s) then Some (processNext_resume i outcome now now' s) else None)"
| "fire (OnUpdate n) s = Some (onUpdate n s)"
| "fire (OffUpdate n) s = Some (offUpdate n s)"

fun exec :: "event list \<Rightarrow> service \<Rightarrow> service option" where
  "exec [] s = Some s"
| "exec (e # es) s = (case fire e s of None \<Rightarrow> None | Some s' \<Rightarrow> exec es s')"

section \<open>The bundle processor\<close>

datatype bundle_type = Dxt | McpbJson

text \<open>\<open>toLowerCase\<close> on the letters A to Z; no other character becomes one of the characters
  of \<open>.dxt\<close> or \<open>.mcpb\<close> when lowered, so nothing else matters to \<open>endsWith\<close> below.\<close>

definition lower_char :: "char \<Rightarrow> char" where
  "lower_char c =
     (case map_of (zip ''ABCDEFGHIJKLMNOPQRSTUVWXYZ'' ''abcdefghijklmnopqrstuvwxyz'') c of
        Some l \<Rightarrow> l
      | None \<Rightarrow> c)"

definition toLowerCase :: "string \<Rightarrow> string" where
  "toLowerCase s = map lower_char s"

definition endsWith :: "string \<Rightarrow> string \<Rightarrow> bool" where
  "endsWith s suf = (length suf \<le> length s \<and> drop (length s - length suf) s = suf)"

text \<open>
  \<open>Buffer.toString("utf8")\<close>: the code points of the text, with U+FFFD for every ill-formed
  sequence (a lead byte and the continuation bytes that may follow it make one U+FFFD, and
  decoding resumes at the first byte that did not fit). A byte order mark is kept.
\<close>

definition is_cont :: "byte \<Rightarrow> nat \<Rightarrow> nat \<Rightarrow> bool" where
  "is_cont b lo hi = (lo \<le> unat b \<and> unat b \<le> hi)"

fun utf8_decode :: "byte list \<Rightarrow> nat list" where
  "utf8_decode [] = []"
| "utf8_decode (b # bs) =
     (let n = unat b in
      if n < 0x80 then n # utf8_decode bs
      else if 0xC2 \<le> n \<and> n \<le> 0xDF then
        (case bs of
           c # cs \<Rightarrow>
             if is_cont c 0x80 0xBF
             then ((n - 0xC0) * 64 + (unat c - 0x80)) # utf8_decode cs
             else 0xFFFD # utf8_decode bs
         | [] \<Rightarrow> [0xFFFD])
      else if 0xE0 \<le> n \<and> n \<le> 0xEF then
        (case bs of
           c # cs \<Rightarrow>
             if is_cont c (if n = 0xE0 then 0xA0 else 0x80) (if n = 0xED then 0x9F else 0xBF)
             then (case cs of
                     d # ds \<Rightarrow>
                       if is_cont d 0x80 0xBF
                       then ((n - 0xE0) * 4096 + (unat c - 0x80) * 64 + (unat d - 0x80))
                              # utf8_decode ds
                       else 0xFFFD # utf8_decode cs
                   | [] \<Rightarrow> [0xFFFD])
             else 0xFFFD # utf8_decode bs
         | [] \<Rightarrow> [0xFFFD])
      else if 0xF0 \<le> n \<and> n \<le> 0xF4 then
        (case bs of
           c # cs \<Rightarrow>
             if is_cont c (if n = 0xF0 then 0x90 else 0x80) (if n = 0xF4 then 0x8F else 0xBF)
             then (case cs of
                     d # ds \<Rightarrow>
                       if is_cont d 0x80 0xBF
                       then (case ds of
                               e # es \<Rightarrow>
                                 if is_cont e 0x80 0xBF
                                 then ((n - 0xF0) * 262144 + (unat c - 0x80) * 4096 +
                                       (unat d - 0x80) * 64 + (unat e - 0x80))
                                        # utf8_decode es
                                 else 0xFFFD # utf8_decode ds
                             | [] \<Rightarrow> [0xFFFD])
                       else 0xFFFD # utf8_decode cs
                   | [] \<Rightarrow> [0xFFFD])
             else 0xFFFD # utf8_decode bs
         | [] \<Rightarrow> [0xFFFD])
      else 0xFFFD # utf8_decode bs)"

text \<open>The code points \<open>trimStart\<close> removes: ECMAScript white space and line terminators.\<close>

definition js_whitespace :: "nat \<Rightarrow> bool" where
  "js_whitespace c =
     (c \<in> {0x09, 0x0A, 0x0B, 0x0C, 0x0D, 0x20, 0xA0, 0x1680, 0x2028, 0x2029, 0x202F, 0x205F,
            0x3000, 0xFEFF} \<or> (0x2000 \<le> c \<and> c \<le> 0x200A))"

definition trimStart :: "nat list \<Rightarrow> nat list" where
  "trimStart text = dropWhile js_whitespace text"

text \<open>\<open>startsWith("{")\<close>.\<close>

definition startsWith_brace :: "nat list \<Rightarrow> bool" where
  "startsWith_brace text = (case text of c # _ \<Rightarrow> c = 0x7B | [] \<Rightarrow> False)"

definition detectBundleType :: "byte list \<Rightarrow> string option \<Rightarrow> bundle_type" where
  "detectBundleType file fname =
     (let name = toLowerCase (case fname of Some n \<Rightarrow> n | None \<Rightarrow> []) in
      if endsWith name ''.dxt'' then Dxt
      else if endsWith name ''.mcpb'' then McpbJson
      else
        let maxPeek = min 64 (length file);
            peek = take maxPeek file;
            text = utf8_decode peek;
            trimmed = trimStart text;
            isZip = (case peek of a # b # _ \<Rightarrow> a = 0x50 \<and> b = 0x4b | _ \<Rightarrow> False)
        in if isZip then Dxt
           else if startsWith_brace trimmed then McpbJson
           else Dxt)"

text \<open>
  The classification as the specification words it, for comparison: the extension hints,
  then the archive signature in the first two bytes of the payload, then the payload as
  text, trimmed of leading white space, beginning with an opening brace, else the archive
  family.
\<close>

definition zip_signature :: "byte list \<Rightarrow> bool" where
  "zip_signature payload = (case payload of a # b # _ \<Rightarrow> a = 0x50 \<and> b = 0x4b | _ \<Rightarrow> False)"

definition begins_with_brace :: "byte list \<Rightarrow> bool" where
  "begins_with_brace payload = startsWith_brace (trimStart (utf8_decode payload))"

definition classify_spec :: "byte list \<Rightarrow> string option \<Rightarrow> bundle_type" where
  "classify_spec payload fname =
     (if endsWith (toLowerCase (case fname of Some n \<Rightarrow> n | None \<Rightarrow> [])) ''.dxt'' then Dxt
      else if endsWith (toLowerCase (case fname of Some n \<Rightarrow> n | None \<Rightarrow> [])) ''.mcpb''
        then McpbJson
      else if zip_signature payload then Dxt
      else if begins_with_brace payload then McpbJson
      else Dxt)"

text \<open>
  JavaScript on parsed JSON. \<open>truthy\<close> is what \<open>!v\<close> negates; a property read gives
  \<open>None\<close> for \<open>undefined\<close> (a primitive or an array has none of the properties read here);
  an assignment replaces the property in place or adds it last.
\<close>

fun truthy :: "json \<Rightarrow> bool" where
  "truthy JNull = False"
| "truthy (JBool b) = b"
| "truthy (JNum x) = (x \<noteq> 0)"
| "truthy (JStr s) = (s \<noteq> [])"
| "truthy (JArr _) = True"
| "truthy (JObj _) = True"

definition truthy_prop :: "json option \<Rightarrow> bool" where
  "truthy_prop v = (case v of Some x \<Rightarrow> truthy x | None \<Rightarrow> False)"

fun get_prop :: "json \<Rightarrow> string \<Rightarrow> json option" where
  "get_prop (JObj props) k = map_of props k"
| "get_prop _ k = None"

fun set_entry :: "string \<Rightarrow> json \<Rightarrow> (string \<times> json) list \<Rightarrow> (string \<times> json) list" where
  "set_entry k v [] = [(k, v)]"
| "set_entry k v ((k', v') # ps) = (if k' = k then (k, v) # ps else (k', v') # set_entry k v ps)"

fun set_prop :: "string \<Rightarrow> json \<Rightarrow> json \<Rightarrow> json" where
  "set_prop k v (JObj props) = JObj (set_entry k v props)"
| "set_prop k v x = x"

text \<open>\<open>typeof v !== "object"\<close>: \<open>null\<close>, arrays and objects are objects.\<close>

fun is_object :: "json \<Rightarrow> bool" where
  "is_object JNull = True"
| "is_object (JArr _) = True"
| "is_object (JObj _) = True"
| "is_object _ = False"

text \<open>\<open>a ?? b\<close>: \<open>b\<close> when \<open>a\<close> is \<open>undefined\<close> or \<open>null\<close>.\<close>

definition nullish_or :: "json option \<Rightarrow> json \<Rightarrow> json" where
  "nullish_or a b = (case a of None \<Rightarrow> b | Some JNull \<Rightarrow> b | Some x \<Rightarrow> x)"

text \<open>The \<open>TypeError\<close> of reading \<open>server\<close> from \<open>null\<close>.\<close>

definition null_read_error :: thrown where
  "null_read_error =
     Thrown (Some (''Cannot read properties of null (reading '' @ [CHR 0x27] @ ''server'' @
                   [CHR 0x27] @ '')''))
            (''TypeError: Cannot read properties of null (reading '' @ [CHR 0x27] @ ''server'' @
             [CHR 0x27] @ '')'')"

text \<open>The message \<open>Invalid MCPB: missing 'name'\<close>, with its two apostrophes.\<close>

definition missing_name :: string where
  "missing_name = ''Invalid MCPB: missing '' @ [CHR 0x27] @ ''name'' @ [CHR 0x27]"

text \<open>
  \<open>processMcpbJson\<close>. \<open>parse\<close> is \<open>JSON.parse\<close> after \<open>Buffer.toString("utf8")\<close>, either
  throwing or giving the parsed value. Whatever is thrown inside the \<open>try\<close> is logged and
  thrown again, so it is the result.
\<close>

definition processMcpbJson :: "(byte list \<Rightarrow> thrown + json) \<Rightarrow> byte list \<Rightarrow> thrown + json" where
  "processMcpbJson parse file =
     (case parse file of
        Inl err \<Rightarrow> Inl err
      | Inr parsed \<Rightarrow>
          if parsed = JNull then Inl null_read_error
          else
            let config = (if truthy_prop (get_prop parsed ''server'')
                          then the (get_prop parsed ''server'') else parsed)
            in if \<not> truthy config \<or> \<not> is_object config
               then Inl (js_Error ''Invalid MCPB content: not an object'')
               else if \<not> truthy_prop (get_prop config ''name'')
               then Inl (js_Error missing_name)
               else
                 let c1 = (if \<not> truthy_prop (get_prop config ''serverType'')
                           then set_prop ''serverType'' (JStr ''local'') config else config);
                     c2 = (if \<not> truthy_prop (get_prop c1 ''env'')
                           then set_prop ''env'' (JObj []) c1 else c1);
                     c3 = set_prop ''disabled''
                            (nullish_or (get_prop c2 ''disabled'') (JBool False)) c2;
                     c4 = set_prop ''autoStart''
                            (nullish_or (get_prop c3 ''autoStart'') (JBool False)) c3;
                     c5 = set_prop ''verificationStatus''
                            (nullish_or (get_prop c4 ''verificationStatus'') (JStr ''unverified''))
                            c4
                 in Inr c5)"

text \<open>\<open>processBundleFile\<close>; \<open>processDxtFile\<close> is the archive decoder, which is not part of
  these sources.\<close>

definition processBundleFile ::
  "(byte list \<Rightarrow> thrown + json) \<Rightarrow> (byte list \<Rightarrow> thrown + json) \<Rightarrow>
   byte list \<Rightarrow> string option \<Rightarrow> thrown + json" where
  "processBundleFile processDxtFile parse file fname =
     (if detectBundleType file fname = Dxt then processDxtFile file
      else processMcpbJson parse file)"

section \<open>Snapshots and the store\<close>




section \<open>Invariants and observations\<close>


text \<open>What the fields of a job are in each status, between two returns to the event loop.\<close>

definition job_ok :: "ConversionJob \<Rightarrow> bool" where
  "job_ok j =
     (case status j of
        Queued \<Rightarrow> progress j = 0 \<and> result j = None \<and> error j = None
      | Processing \<Rightarrow> progress j = 50 \<and> result j = None \<and> error j = None
      | Completed \<Rightarrow> progress j = 100 \<and> result j \<noteq> None \<and> error j = None
      | Failed \<Rightarrow> progress j = 50 \<and> result j = None \<and> error j \<noteq> None)"

text \<open>
  \<open>draining\<close> relates the flag, the suspended calls, the queue and the job records;
  \<open>consistent\<close> adds what holds whenever control is back in the event loop: an idle
  service has an empty queue.
\<close>

definition draining :: "service \<Rightarrow> bool" where
  "draining s =
     (processing s = (awaiting s \<noteq> []) \<and> length (awaiting s) \<le> 1 \<and>
      distinct (queue s) \<and> [] \<notin> set (queue s) \<and>
      (\<forall>i. (i \<in> set (queue s) \<or> i \<in> set (awaiting s) \<longrightarrow> jobs s i \<noteq> None) \<and>
           (\<forall>j. jobs s i = Some j \<longrightarrow>
                job_id j = i \<and> job_ok j \<and>
                (status j = Queued) = (i \<in> set (queue s)) \<and>
                (status j = Processing) = (i \<in> set (awaiting s)))))"

definition consistent :: "service \<Rightarrow> bool" where
  "consistent s = (draining s \<and> (awaiting s = [] \<longrightarrow> queue s = []))"




















section \<open>The drain invariant\<close>

text \<open>
  \<open>emit\<close> touches only the emitter, the promises and the two logs, so the flag, the queue,
  the suspended calls and the job records follow the code of \<open>enqueue\<close> and \<open>processNext\<close>
  alone.
\<close>

lemma call_listener_frame:
  "jobs (call_listener l x s) = jobs s \<and> queue (call_listener l x s) = queue s \<and>
   processing (call_listener l x s) = processing s \<and>
   awaiting (call_listener l x s) = awaiting s \<and> emitted (call_listener l x s) = emitted s"
  by (cases l) (simp_all add: waiter_onUpdate_def settle_def)

lemma deliver_frame [simp]:
  "jobs (deliver ls x s) = jobs s" "queue (deliver ls x s) = queue s"
  "processing (deliver ls x s) = processing s" "awaiting (deliver ls x s) = awaiting s"
  "emitted (deliver ls x s) = emitted s"
  by (induction ls arbitrary: s) (simp_all add: call_listener_frame)

lemma emit_frame [simp]:
  "jobs (emit x s) = jobs s" "queue (emit x s) = queue s"
  "processing (emit x s) = processing s" "awaiting (emit x s) = awaiting s"
  "emitted (emit x s) = emitted s @ [x]"
  by (simp_all add: emit_def)

lemma draining_job:
  assumes "draining s" "jobs s i = Some j"
  shows "job_id j = i" "job_ok j" "(status j = Queued) = (i \<in> set (queue s))"
    "(status j = Processing) = (i \<in> set (awaiting s))"
  using assms unfolding draining_def by blast+

lemma draining_pending:
  assumes "draining s" "i \<in> set (queue s) \<or> i \<in> set (awaiting s)"
  shows "jobs s i \<noteq> None"
  using assms unfolding draining_def by blast

lemma processNext_start:
  assumes "\<not> processing s" "queue s = n # rest" "n \<noteq> []" "jobs s n = Some job"
  shows "queue (processNext now s) = rest \<and> processing (processNext now s) \<and>
         awaiting (processNext now s) = awaiting s @ [n] \<and>
         jobs (processNext now s) =
           (jobs s)(n \<mapsto> job\<lparr>status := Processing, progress := 50, updatedAt := now\<rparr>)"
  using assms by (cases job) (simp add: processNext_def Let_def)

lemma draining_processNext:
  assumes "draining s"
  shows "consistent (processNext now s)"
proof (cases "processing s")
  case True
  with assms show ?thesis by (auto simp: processNext_def consistent_def draining_def)
next
  case idle: False
  show ?thesis
  proof (cases "queue s")
    case Nil
    with idle assms show ?thesis by (simp add: processNext_def consistent_def)
  next
    case (Cons n rest)
    from assms Cons have n: "n \<noteq> []" "n \<notin> set rest" "distinct rest" "[] \<notin> set rest"
      by (auto simp: draining_def)
    from draining_pending [OF assms, of n] Cons obtain job where job: "jobs s n = Some job"
      by auto
    from draining_job [OF assms job] Cons
    have jq: "job_id job = n" "status job = Queued" "job_ok job" by auto
    from assms idle have aw: "awaiting s = []" by (simp add: draining_def)
    have others: "job_id j = i \<and> job_ok j \<and> (status j = Queued) = (i \<in> set rest) \<and>
        status j \<noteq> Processing" if "i \<noteq> n" "jobs s i = Some j" for i j
      using draining_job [OF assms that(2)] Cons aw that(1) by auto
    have inq: "jobs s i \<noteq> None" if "i \<in> set rest" for i
      using draining_pending [OF assms, of i] Cons that by auto
    note st = processNext_start [OF idle Cons n(1) job, of now]
    have "draining (processNext now s)"
      unfolding draining_def
    proof (intro conjI allI impI)
      fix i j
      assume "jobs (processNext now s) i = Some j"
      then have c: "(i = n \<and> j = job\<lparr>status := Processing, progress := 50, updatedAt := now\<rparr>)
          \<or> (i \<noteq> n \<and> jobs s i = Some j)"
        by (auto simp: st split: if_splits)
      from c jq others show "job_id j = i" by auto
      from c jq others show "job_ok j" by (auto simp: job_ok_def)
      from c jq others n show "(status j = Queued) = (i \<in> set (queue (processNext now s)))"
        by (auto simp: st)
      from c jq others show "(status j = Processing) = (i \<in> set (awaiting (processNext now s)))"
        by (auto simp: st aw)
    qed (use st n inq aw in \<open>auto\<close>)
    then show ?thesis by (simp add: consistent_def st)
  qed
qed

lemma draining_fields:
  assumes "jobs s' = jobs s" "queue s' = queue s" "processing s' = processing s"
    "awaiting s' = awaiting s"
  shows "draining s' = draining s"
  by (simp add: draining_def assms)

lemma consistent_fields:
  assumes "jobs s' = jobs s" "queue s' = queue s" "processing s' = processing s"
    "awaiting s' = awaiting s"
  shows "consistent s' = consistent s"
  by (simp add: consistent_def draining_fields [OF assms] assms)

lemma draining_push:
  assumes "consistent s" "i \<noteq> []" "jobs s i = None"
  shows "draining (s\<lparr>jobs := (jobs s)(i \<mapsto> \<lparr> job_id = i, status = Queued, progress = 0,
            file_ref = f, fileName = fn, result = None, error = None, createdAt = now,
            updatedAt = now \<rparr>), queue := queue s @ [i]\<rparr>)"
proof -
  from assms have d: "draining s" by (simp add: consistent_def)
  from draining_pending [OF d, of i] assms(3)
  have "i \<notin> set (queue s)" "i \<notin> set (awaiting s)" by auto
  then show ?thesis
    using assms by (auto simp: consistent_def draining_def job_ok_def)
qed

lemma consistent_enqueue:
  assumes "consistent s" "i \<noteq> []" "jobs s i = None"
  shows "consistent (snd (enqueue i now now' f fn s))"
proof -
  let ?job = "\<lparr> job_id = i, status = Queued, progress = 0, file_ref = f, fileName = fn,
                 result = None, error = None, createdAt = now, updatedAt = now \<rparr>"
  let ?s1 = "s\<lparr>jobs := (jobs s)(i \<mapsto> ?job), queue := queue s @ [i]\<rparr>"
  have "draining (emit ?job ?s1) = draining ?s1"
    by (rule draining_fields) simp_all
  with draining_push [OF assms] have "draining (emit ?job ?s1)" by simp
  then have "consistent (processNext now' (emit ?job ?s1))" by (rule draining_processNext)
  then show ?thesis by (simp add: enqueue_def Let_def)
qed

lemma draining_finish:
  assumes "consistent s" "i \<in> set (awaiting s)" "jobs s i = Some job"
    "job' = job\<lparr>progress := 100, status := Completed, result := Some r, updatedAt := now\<rparr>
     \<or> job' = job\<lparr>status := Failed, error := Some e, updatedAt := now\<rparr>"
  shows "draining (s\<lparr>jobs := (jobs s)(i \<mapsto> job'), processing := False,
           awaiting := remove1 i (awaiting s)\<rparr>)"
proof -
  from assms have d: "draining s" by (simp add: consistent_def)
  from d assms(2) have aw: "awaiting s = [i]"
    by (cases "awaiting s") (auto simp: draining_def)
  from draining_job [OF d assms(3)] assms(2)
  have j: "job_id job = i" "status job = Processing" "job_ok job" "i \<notin> set (queue s)"
    by auto
  from assms(4) j have j': "job_id job' = i" "job_ok job'" "status job' \<noteq> Queued"
    "status job' \<noteq> Processing"
    by (auto simp: job_ok_def)
  have others: "job_id j = k \<and> job_ok j \<and> (status j = Queued) = (k \<in> set (queue s)) \<and>
      status j \<noteq> Processing" if "k \<noteq> i" "jobs s k = Some j" for k j
    using draining_job [OF d that(2)] aw that(1) by auto
  from d have q: "distinct (queue s)" "[] \<notin> set (queue s)"
    "\<And>k. k \<in> set (queue s) \<Longrightarrow> jobs s k \<noteq> None"
    by (auto simp: draining_def)
  let ?t = "s\<lparr>jobs := (jobs s)(i \<mapsto> job'), processing := False,
             awaiting := remove1 i (awaiting s)\<rparr>"
  show ?thesis
    unfolding draining_def
  proof (intro conjI allI impI)
    fix k j
    assume "jobs ?t k = Some j"
    then have c: "(k = i \<and> j = job') \<or> (k \<noteq> i \<and> jobs s k = Some j)"
      by (auto split: if_splits)
    from c j' others show "job_id j = k" by auto
    from c j' others show "job_ok j" by auto
    from c j' others j(4) show "(status j = Queued) = (k \<in> set (queue ?t))"
      by auto
    from c j' others show "(status j = Processing) = (k \<in> set (awaiting ?t))"
      by (auto simp: aw)
  qed (use q aw in \<open>auto\<close>)
qed

lemma resume_unfold:
  assumes "jobs s i = Some job"
  shows "processNext_resume i outcome now now' s =
     (let job' = (case outcome of
                    Inr r \<Rightarrow> job\<lparr>progress := 100, status := Completed, result := Some r,
                                updatedAt := now\<rparr>
                  | Inl err \<Rightarrow> job\<lparr>status := Failed, error := Some (error_text err),
                                  updatedAt := now\<rparr>)
      in processNext now'
           ((emit job' (s\<lparr>jobs := (jobs s)(i \<mapsto> job')\<rparr>))\<lparr>processing := False,
              awaiting := remove1 i (awaiting s)\<rparr>))"
  using assms by (simp add: processNext_resume_def Let_def)

lemma consistent_resume:
  assumes "consistent s" "i \<in> set (awaiting s)"
  shows "consistent (processNext_resume i outcome now now' s)"
proof -
  from assms(1) have d: "draining s" by (simp add: consistent_def)
  from draining_pending [OF d, of i] assms(2) obtain job where job: "jobs s i = Some job"
    by auto
  define job' where "job' = (case outcome of
      Inr r \<Rightarrow> job\<lparr>progress := 100, status := Completed, result := Some r, updatedAt := now\<rparr>
    | Inl err \<Rightarrow> job\<lparr>status := Failed, error := Some (error_text err), updatedAt := now\<rparr>)"
  let ?t = "s\<lparr>jobs := (jobs s)(i \<mapsto> job'), processing := False,
             awaiting := remove1 i (awaiting s)\<rparr>"
  let ?u = "(emit job' (s\<lparr>jobs := (jobs s)(i \<mapsto> job')\<rparr>))\<lparr>processing := False,
             awaiting := remove1 i (awaiting s)\<rparr>"
  have "\<exists>r e. job' = job\<lparr>progress := 100, status := Completed, result := Some r, updatedAt := now\<rparr>
     \<or> job' = job\<lparr>status := Failed, error := Some e, updatedAt := now\<rparr>"
    unfolding job'_def by (cases outcome) auto
  then obtain r e where
    "job' = job\<lparr>progress := 100, status := Completed, result := Some r, updatedAt := now\<rparr>
     \<or> job' = job\<lparr>status := Failed, error := Some e, updatedAt := now\<rparr>" by blast
  from draining_finish [OF assms(1,2) job this] have "draining ?t" .
  moreover have "draining ?u = draining ?t" by (rule draining_fields) simp_all
  ultimately have "consistent (processNext now' ?u)" by (simp add: draining_processNext)
  then show ?thesis by (simp add: resume_unfold [OF job] job'_def Let_def)
qed

lemma consistent_fire:
  assumes "consistent s" "fire e s = Some s'"
  shows "consistent s'"
proof (cases e)
  case (Enqueue i now now' f fn)
  with assms show ?thesis by (auto split: if_splits intro: consistent_enqueue)
next
  case (EnqueueAndWait i now now' f fn)
  with assms have i: "i \<noteq> []" "jobs s i = None"
    and s': "s' = snd (enqueueAndWait i now now' f fn s)" by (auto split: if_splits)
  have "consistent s' = consistent (snd (enqueue i now now' f fn s))"
    unfolding s' by (rule consistent_fields) (simp_all add: enqueueAndWait_def split_beta)
  with consistent_enqueue [OF assms(1) i] show ?thesis by simp
next
  case (Settled i outcome now now')
  with assms show ?thesis by (auto split: if_splits intro: consistent_resume)
next
  case (OnUpdate n)
  with assms have "s' = onUpdate n s" by simp
  moreover have "consistent (onUpdate n s) = consistent s"
    by (rule consistent_fields) (simp_all add: onUpdate_def)
  ultimately show ?thesis using assms(1) by simp
next
  case (OffUpdate n)
  with assms have "s' = offUpdate n s" by simp
  moreover have "consistent (offUpdate n s) = consistent s"
    by (rule consistent_fields) (simp_all add: offUpdate_def)
  ultimately show ?thesis using assms(1) by simp
qed

lemma exec_snoc:
  "exec (es @ [e]) s = (case exec es s of None \<Rightarrow> None | Some t \<Rightarrow> fire e t)"
  by (induction es arbitrary: s) (auto split: option.splits)


lemma exec_induct [consumes 1, case_names init step]:
  assumes "exec evs s0 = Some s"
    and "P [] s0"
    and "\<And>es e t t'. exec es s0 = Some t \<Longrightarrow> P es t \<Longrightarrow> fire e t = Some t' \<Longrightarrow> P (es @ [e]) t'"
  shows "P evs s"
  using assms(1)
proof (induction evs arbitrary: s rule: rev_induct)
  case Nil
  with assms(2) show ?case by simp
next
  case (snoc e es)
  from snoc.prems obtain t where t: "exec es s0 = Some t" "fire e t = Some s"
    by (auto simp: exec_snoc split: option.splits)
  from assms(3) [OF t(1) snoc.IH [OF t(1)] t(2)] show ?case .
qed

lemma consistent_init: "consistent init"
  by (simp add: consistent_def draining_def init_def)

lemma reachable_consistent:
  assumes "exec evs init = Some s"
  shows "consistent s"
  using assms by (induction rule: exec_induct) (auto intro: consistent_init consistent_fire)

text \<open>
  C1. In every state the service reaches, by any sequence of enqueue calls, subscriptions
  and settled conversions: at most one call of \<open>processNext\<close> is awaiting a conversion, at
  most one job has status \<open>processing\<close> (the one whose conversion is awaited), the flag is set
  exactly while a conversion is awaited, and a call of \<open>processNext\<close> made while the flag is
  set changes nothing.
\<close>

theorem single_flight:
  assumes "exec evs init = Some s"
  shows "length (awaiting s) \<le> 1 \<and>
         (\<forall>a b ja jb. jobs s a = Some ja \<and> status ja = Processing \<and>
                      jobs s b = Some jb \<and> status jb = Processing \<longrightarrow> a = b) \<and>
         (\<forall>i j. jobs s i = Some j \<longrightarrow> (status j = Processing) = (awaiting s = [i])) \<and>
         processing s = (awaiting s \<noteq> []) \<and>
         (processing s \<longrightarrow> processNext now s = s)"
proof -
  from reachable_consistent [OF assms] have d: "draining s" by (simp add: consistent_def)
  then have len: "length (awaiting s) \<le> 1" and pr: "processing s = (awaiting s \<noteq> [])"
    by (simp_all add: draining_def)
  have one: "(status j = Processing) = (awaiting s = [i])" if "jobs s i = Some j" for i j
  proof -
    from len have "(i \<in> set (awaiting s)) = (awaiting s = [i])"
      by (cases "awaiting s") auto
    with draining_job(4) [OF d that] show ?thesis by simp
  qed
  have uniq: "a = b" if "jobs s a = Some ja \<and> status ja = Processing \<and>
      jobs s b = Some jb \<and> status jb = Processing" for a b ja jb
    using one [of a ja] one [of b jb] that by simp
  have guard: "processing s \<longrightarrow> processNext now s = s" by (simp add: processNext_def)
  from len uniq one pr guard show ?thesis by blast
qed

theorem single_flight_witness:
  "exec [Enqueue ''a'' 1 1 0 None, Enqueue ''b'' 2 2 1 None] init \<noteq> None \<and>
   awaiting (the (exec [Enqueue ''a'' 1 1 0 None, Enqueue ''b'' 2 2 1 None] init)) = [''a''] \<and>
   processing (the (exec [Enqueue ''a'' 1 1 0 None, Enqueue ''b'' 2 2 1 None] init)) \<and>
   map_option status (jobs (the (exec [Enqueue ''a'' 1 1 0 None, Enqueue ''b'' 2 2 1 None] init)) ''a'')
     = Some Processing \<and>
   map_option status (jobs (the (exec [Enqueue ''a'' 1 1 0 None, Enqueue ''b'' 2 2 1 None] init)) ''b'')
     = Some Queued \<and>
   processNext 3 (the (exec [Enqueue ''a'' 1 1 0 None, Enqueue ''b'' 2 2 1 None] init))
     = the (exec [Enqueue ''a'' 1 1 0 None, Enqueue ''b'' 2 2 1 None] init)"
proof -
  define s where "s = the (exec [Enqueue ''a'' 1 1 0 None, Enqueue ''b'' 2 2 1 None] init)"
  have ex: "exec [Enqueue ''a'' 1 1 0 None, Enqueue ''b'' 2 2 1 None] init = Some s"
    unfolding s_def
    by (simp add: init_def enqueue_def emit_def processNext_def Let_def)
  have vals: "awaiting s = [''a'']" "map_option status (jobs s ''a'') = Some Processing"
    "map_option status (jobs s ''b'') = Some Queued"
    unfolding s_def
    by (simp_all add: init_def enqueue_def emit_def processNext_def Let_def)
  from single_flight [OF ex, of 3] vals show ?thesis
    unfolding s_def [symmetric] using ex by simp
qed

section \<open>The broadcasts of a job\<close>










section \<open>Submission order\<close>

















section \<open>Status and progress\<close>












section \<open>A conversion that fails\<close>








section \<open>What a subscriber is called with\<close>






















section \<open>The waiter of enqueueAndWait\<close>































section \<open>Format detection\<close>

lemma decode_spaces: "utf8_decode (replicate k 0x20 @ bs) = replicate k 0x20 @ utf8_decode bs"
  by (induction k) simp_all

lemma trim_spaces: "trimStart (replicate k 0x20 @ text) = trimStart text"
  by (induction k) (simp_all add: trimStart_def js_whitespace_def)

lemma detect_window:
  "detectBundleType file fname = classify_spec (take 64 file) fname"
proof -
  have "take (min 64 (length file)) file = take 64 file" by (simp add: min_def)
  then show ?thesis
    by (simp add: detectBundleType_def classify_spec_def Let_def zip_signature_def
        begins_with_brace_def)
qed

lemma detect_examples:
  "detectBundleType [0x50, 0x4b, 3, 4] None = Dxt"
  "detectBundleType [0x20, 0x0a, 0x7b] (Some ''a.txt'') = McpbJson"
  "detectBundleType [0xef, 0xbb, 0xbf, 0xe2, 0x80, 0x83, 0x7b] None = McpbJson"
  "detectBundleType [0x7b] (Some ''A.DXT'') = Dxt"
  "detectBundleType [0x50, 0x4b] (Some ''A.McPb'') = McpbJson"
  "detectBundleType [0x41] (Some ''.mcpb.dxt'') = Dxt"
  by (simp_all add: detectBundleType_def toLowerCase_def endsWith_def lower_char_def
     trimStart_def js_whitespace_def startsWith_brace_def is_cont_def)

text \<open>
  C8 (as amended). The classification is the one the specification words, applied to the
  first 64 bytes of the payload: an extension hint decides first (\<open>.dxt\<close> before \<open>.mcpb\<close>,
  in any letter case); otherwise the archive signature \<open>PK\<close> in the first two bytes;
  otherwise those at most 64 bytes, read as UTF-8 and trimmed of leading white space,
  beginning with an opening brace; otherwise the archive family.
\<close>

theorem detect_by_priority:
  "detectBundleType file fname = classify_spec (take 64 file) fname"
  by (rule detect_window)

text \<open>
  C8 as stated fails: a payload of 64 spaces and then an opening brace, with no file name,
  begins with a brace once trimmed and has no archive signature, yet it is classified as
  the archive family, because only the first 64 bytes are looked at.
\<close>

theorem detect_long_whitespace:
  "classify_spec (replicate 64 0x20 @ [0x7B]) None = McpbJson \<and>
   detectBundleType (replicate 64 0x20 @ [0x7B]) None = Dxt"
proof -
  have two: "replicate 64 x = x # x # replicate 62 x" for x :: byte
    by (simp add: numeral_eq_Suc)
  have nozip: "\<not> zip_signature (replicate 64 0x20 @ bs)" for bs
    by (simp add: zip_signature_def two)
  have hint: "\<not> endsWith (toLowerCase []) ''.dxt''" "\<not> endsWith (toLowerCase []) ''.mcpb''"
    by (simp_all add: endsWith_def toLowerCase_def)
  have brace: "begins_with_brace (replicate 64 0x20 @ [0x7B])"
    by (simp add: begins_with_brace_def decode_spaces trim_spaces)
      (simp add: trimStart_def js_whitespace_def startsWith_brace_def)
  have blank: "\<not> begins_with_brace (replicate 64 0x20 @ [])"
    unfolding begins_with_brace_def decode_spaces trim_spaces
    by (simp add: trimStart_def startsWith_brace_def)
  have spec: "classify_spec (replicate 64 0x20 @ [0x7B]) None = McpbJson"
    using nozip [of "[0x7B]"] brace hint by (simp add: classify_spec_def)
  have "take 64 (replicate 64 (0x20 :: byte) @ [0x7B]) = replicate 64 0x20 @ []" by simp
  then have "detectBundleType (replicate 64 0x20 @ [0x7B]) None =
      classify_spec (replicate 64 0x20 @ []) None"
    by (simp only: detect_window)
  also have "\<dots> = Dxt"
    using nozip [of "[]"] blank hint by (simp add: classify_spec_def)
  finally show ?thesis using spec by simp
qed

section \<open>The JSON decoder\<close>





text \<open>The dispatch of \<open>processBundleFile\<close> on two inputs: a name hint sends the payload to
  the JSON decoder, the archive signature to the archive decoder.\<close>

lemma bundle_dispatch:
  "processBundleFile processDxtFile parse file (Some ''server.MCPB'') =
     processMcpbJson parse file"
  "processBundleFile processDxtFile parse (0x50 # 0x4b # rest) None =
     processDxtFile (0x50 # 0x4b # rest)"
  by (simp_all add: processBundleFile_def detectBundleType_def toLowerCase_def endsWith_def
      lower_char_def)

section \<open>Snapshots returned by getJob\<close>






end
